theory Spec2Isabelle
  imports Complex_Main "HOL-Library.Sublist"
begin

section \<open>The sliding-window rate limiter of \<^verbatim>\<open>task3_rate_limiter.py\<close>\<close>

text \<open>
  The class \<^verbatim>\<open>RateLimiter\<close> keeps, per user id, a deque of the timestamps of the admitted
  requests. The embedding below follows the Python method by method.

  \<^item> Timestamps (\<^verbatim>\<open>current_time: Optional[float]\<close>) are exact rationals. Every Python
    \<^verbatim>\<open>int\<close> and every finite \<^verbatim>\<open>float\<close> is a rational; the rounding error of
    floating-point subtraction is not modelled.
  \<^item> \<^verbatim>\<open>max_requests: int\<close> and \<^verbatim>\<open>window_seconds: int\<close> are unbounded integers.
  \<^item> \<^verbatim>\<open>self._requests\<close>, a \<^verbatim>\<open>defaultdict\<close> of deques, is a partial map from keys to
    lists (oldest entry first); reading a missing key stores an empty deque for it.
  \<^item> The lock is held for the whole body of every method, so each method is one atomic
    state transition; the lock itself is not modelled.
  \<^item> An exception is a value \<open>Inl e\<close>; the state reached when it is raised is returned
    beside it, since the mutations made before the raise persist.
  \<^item> \<^verbatim>\<open>time.time()\<close> is the parameter \<open>clock\<close> of the two methods that read it.
  \<^item> A returned \<^verbatim>\<open>dict\<close> is an association list from the literal key strings to values.
\<close>

subsection \<open>Values and errors\<close>

datatype error = ValueError string | IndexError | KeyError

datatype pyval = VBool bool | VInt int | VNum rat | VStr string

type_synonym info = "(string \<times> pyval) list"

subsection \<open>The built-ins \<^verbatim>\<open>round(x, 2)\<close> and \<^verbatim>\<open>f"{x:.1f}"\<close>\<close>

text \<open>
  Python rounds the exact value of its argument to the nearest multiple of \<open>10\<^sup>-\<^sup>n\<close>,
  a tie going to the even neighbour.
\<close>

definition round_half_even :: "rat \<Rightarrow> int" where
  "round_half_even y =
     (let f = \<lfloor>y\<rfloor>; d = y - of_int f
      in if d < 1 / 2 then f
         else if 1 / 2 < d then f + 1
         else if even f then f else f + 1)"

definition py_round :: "rat \<Rightarrow> nat \<Rightarrow> rat" where
  "py_round x ndigits = of_int (round_half_even (x * 10 ^ ndigits)) / 10 ^ ndigits"

definition digit_char :: "nat \<Rightarrow> char" where
  "digit_char d = ''0123456789'' ! (d mod 10)"

function digits :: "nat \<Rightarrow> string" where
  "digits n = (if n < 10 then [digit_char n] else digits (n div 10) @ [digit_char (n mod 10)])"
  by pat_completeness auto
termination
  by (relation "measure (\<lambda>n. n)") auto

definition format_1f :: "rat \<Rightarrow> string" where
  "format_1f x =
     (let r = nat (round_half_even (\<bar>x\<bar> * 10))
      in (if x < 0 then ''-'' else '''') @ digits (r div 10) @ ''.'' @ digits (r mod 10))"

subsection \<open>The limiter\<close>

record limiter =
  max_requests :: int
  window_seconds :: int
  requests :: "string \<rightharpoonup> rat list"

text \<open>\<^verbatim>\<open>__init__\<close>: both arguments are checked, in this order, before anything is stored.\<close>

definition init :: "int \<Rightarrow> int \<Rightarrow> error + limiter" where
  "init n w =
     (if n \<le> 0 then Inl (ValueError ''max_requests must be positive'')
      else if w \<le> 0 then Inl (ValueError ''window_seconds must be positive'')
      else Inr \<lparr>max_requests = n, window_seconds = w, requests = Map.empty\<rparr>)"

text \<open>\<^verbatim>\<open>self._requests[user_id]\<close> on the \<^verbatim>\<open>defaultdict\<close>: a missing key reads as a new empty deque.\<close>

definition getitem :: "(string \<rightharpoonup> rat list) \<Rightarrow> string \<Rightarrow> rat list" where
  "getitem m k = (case m k of None \<Rightarrow> [] | Some d \<Rightarrow> d)"

text \<open>
  The loop \<^verbatim>\<open>while user_requests and user_requests[0] < cutoff_time: user_requests.popleft()\<close>.
\<close>

fun popleft_expired :: "rat \<Rightarrow> rat list \<Rightarrow> rat list" where
  "popleft_expired cutoff_time [] = []"
| "popleft_expired cutoff_time (x # xs) =
     (if x < cutoff_time then popleft_expired cutoff_time xs else x # xs)"

text \<open>
  The first statement of \<^verbatim>\<open>is_allowed\<close> and \<^verbatim>\<open>get_status\<close>:
  \<^verbatim>\<open>if current_time is None: current_time = time.time()\<close>.
\<close>

definition now_of :: "rat \<Rightarrow> rat option \<Rightarrow> rat" where
  "now_of clock current_time_arg = (case current_time_arg of None \<Rightarrow> clock | Some t \<Rightarrow> t)"

definition is_allowed ::
  "rat \<Rightarrow> limiter \<Rightarrow> string \<Rightarrow> rat option \<Rightarrow> (error + bool \<times> info) \<times> limiter" where
  "is_allowed clock self user_id current_time_arg =
     (let current_time = now_of clock current_time_arg;
          cutoff_time = current_time - of_int (window_seconds self);
          user_requests = popleft_expired cutoff_time (getitem (requests self) user_id);
          request_count = int (length user_requests)
      in if max_requests self \<le> request_count then
           (case user_requests of
              [] \<Rightarrow> (Inl IndexError, self\<lparr>requests := (requests self)(user_id \<mapsto> user_requests)\<rparr>)
            | oldest_request # _ \<Rightarrow>
                (let time_until_reset =
                       of_int (window_seconds self) - (current_time - oldest_request)
                 in (Inr (False,
                       [(''allowed'', VBool False),
                        (''user_id'', VStr user_id),
                        (''current_requests'', VInt request_count),
                        (''max_requests'', VInt (max_requests self)),
                        (''window_seconds'', VInt (window_seconds self)),
                        (''time_until_reset'', VNum (py_round time_until_reset 2)),
                        (''message'', VStr (''Rate limit exceeded. Try again in ''
                           @ format_1f time_until_reset @ '' seconds.''))]),
                     self\<lparr>requests := (requests self)(user_id \<mapsto> user_requests)\<rparr>)))
         else
           (Inr (True,
              [(''allowed'', VBool True),
               (''user_id'', VStr user_id),
               (''current_requests'', VInt (request_count + 1)),
               (''max_requests'', VInt (max_requests self)),
               (''window_seconds'', VInt (window_seconds self)),
               (''remaining_requests'', VInt (max_requests self - (request_count + 1))),
               (''message'', VStr ''Request allowed'')]),
            self\<lparr>requests := (requests self)(user_id \<mapsto> user_requests @ [current_time])\<rparr>))"

definition get_status :: "rat \<Rightarrow> limiter \<Rightarrow> string \<Rightarrow> rat option \<Rightarrow> info \<times> limiter" where
  "get_status clock self user_id current_time_arg =
     (let current_time = now_of clock current_time_arg;
          cutoff_time = current_time - of_int (window_seconds self);
          user_requests = popleft_expired cutoff_time (getitem (requests self) user_id);
          request_count = int (length user_requests);
          time_until_reset =
            (case user_requests of
               oldest_request # _ \<Rightarrow>
                 max 0 (of_int (window_seconds self) - (current_time - oldest_request))
             | [] \<Rightarrow> 0)
      in ([(''user_id'', VStr user_id),
           (''current_requests'', VInt request_count),
           (''max_requests'', VInt (max_requests self)),
           (''window_seconds'', VInt (window_seconds self)),
           (''remaining_requests'', VInt (max_requests self - request_count)),
           (''time_until_reset'', VNum (py_round time_until_reset 2)),
           (''is_allowed'', VBool (request_count < max_requests self))],
          self\<lparr>requests := (requests self)(user_id \<mapsto> user_requests)\<rparr>))"

text \<open>\<^verbatim>\<open>del d[k]\<close> raises \<^verbatim>\<open>KeyError\<close> on a missing key; \<^verbatim>\<open>reset_user\<close> guards it.\<close>

definition delitem :: "(string \<rightharpoonup> rat list) \<Rightarrow> string \<Rightarrow> error + (string \<rightharpoonup> rat list)" where
  "delitem m k = (case m k of None \<Rightarrow> Inl KeyError | Some _ \<Rightarrow> Inr (m(k := None)))"

definition reset_user :: "limiter \<Rightarrow> string \<Rightarrow> error + limiter" where
  "reset_user self user_id =
     (if user_id \<in> dom (requests self) then
        (case delitem (requests self) user_id of
           Inl e \<Rightarrow> Inl e
         | Inr m \<Rightarrow> Inr (self\<lparr>requests := m\<rparr>))
      else Inr self)"

definition reset_all :: "limiter \<Rightarrow> limiter" where
  "reset_all self = self\<lparr>requests := Map.empty\<rparr>"

subsection \<open>Clients: sequences of calls\<close>

text \<open>
  A client holds one limiter and calls its methods one after the other. A call is paired
  with the reading \<^verbatim>\<open>time.time()\<close> would give while it runs. An exception leaves the
  limiter as the method left it and the client goes on with the next call.
\<close>

datatype call =
  IsAllowed string "rat option"
| GetStatus string "rat option"
| ResetUser string
| ResetAll

datatype outcome =
  Checked "bool \<times> info"
| Status info
| Nothing
| Raised error

fun exec :: "rat \<Rightarrow> limiter \<Rightarrow> call \<Rightarrow> outcome \<times> limiter" where
  "exec clock s (IsAllowed k a) =
     (case is_allowed clock s k a of
        (Inl e, s') \<Rightarrow> (Raised e, s')
      | (Inr r, s') \<Rightarrow> (Checked r, s'))"
| "exec clock s (GetStatus k a) =
     (case get_status clock s k a of (i, s') \<Rightarrow> (Status i, s'))"
| "exec clock s (ResetUser k) =
     (case reset_user s k of Inl e \<Rightarrow> (Raised e, s) | Inr s' \<Rightarrow> (Nothing, s'))"
| "exec clock s ResetAll = (Nothing, reset_all s)"

text \<open>The limiter after a sequence of calls.\<close>

fun final :: "limiter \<Rightarrow> (rat \<times> call) list \<Rightarrow> limiter" where
  "final s [] = s"
| "final s ((clock, c) # cs) = final (snd (exec clock s c)) cs"

text \<open>The key a call is about; \<^verbatim>\<open>reset_all\<close> is about none.\<close>

fun key_of :: "call \<Rightarrow> string option" where
  "key_of (IsAllowed k a) = Some k"
| "key_of (GetStatus k a) = Some k"
| "key_of (ResetUser k) = Some k"
| "key_of ResetAll = None"

text \<open>What the calls about key \<open>k\<close> return, in call order.\<close>

fun outcomes_on :: "string \<Rightarrow> limiter \<Rightarrow> (rat \<times> call) list \<Rightarrow> outcome list" where
  "outcomes_on k s [] = []"
| "outcomes_on k s ((clock, c) # cs) =
     (if key_of c = Some k then [fst (exec clock s c)] else [])
     @ outcomes_on k (snd (exec clock s c)) cs"






section \<open>Eviction\<close>

lemma popleft_expired_dropWhile:
  "popleft_expired c xs = dropWhile (\<lambda>x. x < c) xs"
  by (induction xs) simp_all




lemma popleft_expired_length: "length (popleft_expired c xs) \<le> length xs"
  by (simp add: popleft_expired_dropWhile length_dropWhile_le)

lemma popleft_expired_head: "popleft_expired c xs = y # ys \<Longrightarrow> c \<le> y"
  by (induction xs) (auto split: if_splits)

section \<open>What one call does to the limiter\<close>

lemma is_allowed_state:
  "snd (is_allowed clock s k a) =
     s\<lparr>requests := (requests s)(k \<mapsto>
        (let e = popleft_expired (now_of clock a - of_int (window_seconds s)) (getitem (requests s) k)
         in if max_requests s \<le> int (length e) then e else e @ [now_of clock a]))\<rparr>"
  by (simp add: is_allowed_def Let_def split: list.split)


lemma get_status_state:
  "snd (get_status clock s k a) =
     s\<lparr>requests := (requests s)(k \<mapsto>
        popleft_expired (now_of clock a - of_int (window_seconds s)) (getitem (requests s) k))\<rparr>"
  by (simp add: get_status_def Let_def)

lemma reset_user_eq: "reset_user s k = Inr (s\<lparr>requests := (requests s)(k := None)\<rparr>)"
proof (cases "requests s k")
  case None
  then have "(requests s)(k := None) = requests s" by auto
  with None show ?thesis by (simp add: reset_user_def dom_def)
next
  case (Some d)
  then show ?thesis by (simp add: reset_user_def delitem_def dom_def)
qed

section \<open>The sliding-window guarantee\<close>


lemma getitem_upd_same [simp]: "getitem (m(k \<mapsto> d)) k = d"
  by (simp add: getitem_def)



lemma init_Inr:
  "init n w = Inr s \<Longrightarrow>
     0 < n \<and> 0 < w \<and> s = \<lparr>max_requests = n, window_seconds = w, requests = Map.empty\<rparr>"
  by (auto simp: init_def split: if_splits)



section \<open>The decision of \<^verbatim>\<open>is_allowed\<close>\<close>



text \<open>Rounding to two decimals changes nothing in a multiple of one hundredth.\<close>

lemma py_round_exact: "py_round (of_int m / 100) 2 = of_int m / 100"
  by (simp add: py_round_def round_half_even_def)




section \<open>Eviction removes exactly the expired entries\<close>



section \<open>Construction\<close>

lemma exec_snd:
  "snd (exec clock s (IsAllowed k a)) = snd (is_allowed clock s k a)"
  "snd (exec clock s (GetStatus k a)) = snd (get_status clock s k a)"
  "snd (exec clock s (ResetUser k)) = s\<lparr>requests := (requests s)(k := None)\<rparr>"
  "snd (exec clock s ResetAll) = reset_all s"
  by (simp_all add: reset_user_eq split: prod.split sum.split)

lemma exec_config:
  "max_requests (snd (exec clock s c)) = max_requests s
   \<and> window_seconds (snd (exec clock s c)) = window_seconds s"
  by (cases c)
    (simp_all del: exec.simps add: exec_snd is_allowed_state get_status_state reset_all_def)

lemma final_config:
  "max_requests (final s cs) = max_requests s \<and> window_seconds (final s cs) = window_seconds s"
proof (induction cs arbitrary: s)
  case Nil
  show ?case by simp
next
  case (Cons p cs)
  obtain clock c where "p = (clock, c)" by (cases p)
  with Cons [of "snd (exec clock s c)"] exec_config [of clock s c] show ?case by simp
qed

text \<open>
  Claim C4. \<^verbatim>\<open>RateLimiter(n, w)\<close> raises (a \<^verbatim>\<open>ValueError\<close>, and then returns no instance)
  exactly when \<open>n \<le> 0\<close> or \<open>w \<le> 0\<close>. Otherwise the instance stores \<open>n\<close> and \<open>w\<close>, and
  they are still \<open>n\<close> and \<open>w\<close> after any sequence of \<^verbatim>\<open>is_allowed\<close>, \<^verbatim>\<open>get_status\<close>,
  \<^verbatim>\<open>reset_user\<close> and \<^verbatim>\<open>reset_all\<close> calls.
\<close>

theorem init_checks:
  "((\<exists>e. init n w = Inl e) \<longleftrightarrow> n \<le> 0 \<or> w \<le> 0)
   \<and> (\<forall>e. init n w = Inl e \<longrightarrow> (\<exists>m. e = ValueError m))
   \<and> ((\<exists>s. init n w = Inr s) \<longleftrightarrow> 0 < n \<and> 0 < w)
   \<and> (\<forall>s cs. init n w = Inr s \<longrightarrow>
         max_requests s = n \<and> window_seconds s = w
         \<and> max_requests (final s cs) = n \<and> window_seconds (final s cs) = w)"
proof -
  have "\<forall>s cs. init n w = Inr s \<longrightarrow>
         max_requests s = n \<and> window_seconds s = w
         \<and> max_requests (final s cs) = n \<and> window_seconds (final s cs) = w"
  proof (intro allI impI)
    fix s cs
    assume "init n w = Inr s"
    then have "max_requests s = n \<and> window_seconds s = w"
      by (auto simp: init_def split: if_splits)
    with final_config [of s cs]
    show "max_requests s = n \<and> window_seconds s = w
         \<and> max_requests (final s cs) = n \<and> window_seconds (final s cs) = w"
      by simp
  qed
  moreover have "(\<exists>e. init n w = Inl e) \<longleftrightarrow> n \<le> 0 \<or> w \<le> 0"
    by (auto simp: init_def)
  moreover have "\<forall>e. init n w = Inl e \<longrightarrow> (\<exists>m. e = ValueError m)"
    by (auto simp: init_def split: if_splits)
  moreover have "(\<exists>s. init n w = Inr s) \<longleftrightarrow> 0 < n \<and> 0 < w"
    by (auto simp: init_def)
  ultimately show ?thesis by blast
qed

theorem init_checks_witness:
  "init 5 60 = Inr \<lparr>max_requests = 5, window_seconds = 60, requests = Map.empty\<rparr>
   \<and> max_requests (final \<lparr>max_requests = 5, window_seconds = 60, requests = Map.empty\<rparr>
        [(7, IsAllowed ''u'' None), (0, GetStatus ''v'' (Some 3)), (0, ResetUser ''u''),
         (0, ResetUser ''w''), (0, ResetAll)]) = 5
   \<and> window_seconds (final \<lparr>max_requests = 5, window_seconds = 60, requests = Map.empty\<rparr>
        [(7, IsAllowed ''u'' None), (0, GetStatus ''v'' (Some 3)), (0, ResetUser ''u''),
         (0, ResetUser ''w''), (0, ResetAll)]) = 60
   \<and> init 0 60 = Inl (ValueError ''max_requests must be positive'')
   \<and> init 5 (- 1) = Inl (ValueError ''window_seconds must be positive'')
   \<and> (\<exists>m. init 0 (- 1) = Inl (ValueError m))"
proof -
  have i: "init 5 60 = Inr \<lparr>max_requests = 5, window_seconds = 60, requests = Map.empty\<rparr>"
    by (simp add: init_def)
  have f: "max_requests (final \<lparr>max_requests = 5, window_seconds = 60, requests = Map.empty\<rparr>
        [(7, IsAllowed ''u'' None), (0, GetStatus ''v'' (Some 3)), (0, ResetUser ''u''),
         (0, ResetUser ''w''), (0, ResetAll)]) = 5
   \<and> window_seconds (final \<lparr>max_requests = 5, window_seconds = 60, requests = Map.empty\<rparr>
        [(7, IsAllowed ''u'' None), (0, GetStatus ''v'' (Some 3)), (0, ResetUser ''u''),
         (0, ResetUser ''w''), (0, ResetAll)]) = 60"
    using init_checks [of 5 60] i by blast
  have "\<exists>e. init 0 (- 1) = Inl e"
    using init_checks [of 0 "- 1"] by simp
  then obtain e where e: "init 0 (- 1) = Inl e" ..
  with init_checks [of 0 "- 1"] have "\<exists>m. e = ValueError m" by blast
  with e have m: "\<exists>m. init 0 (- 1) = Inl (ValueError m)" by auto
  have z: "init 0 60 = Inl (ValueError ''max_requests must be positive'')"
    "init 5 (- 1) = Inl (ValueError ''window_seconds must be positive'')"
    by (simp_all add: init_def)
  from i f z m show ?thesis by blast
qed

section \<open>The report of \<^verbatim>\<open>get_status\<close>\<close>




section \<open>Status queries do not change admission\<close>

lemma is_allowed_fst_cong:
  "max_requests s1 = max_requests s2 \<Longrightarrow> window_seconds s1 = window_seconds s2 \<Longrightarrow>
   popleft_expired (now_of clock a - of_int (window_seconds s2)) (getitem (requests s1) k)
     = popleft_expired (now_of clock a - of_int (window_seconds s2)) (getitem (requests s2) k) \<Longrightarrow>
   fst (is_allowed clock s1 k a) = fst (is_allowed clock s2 k a)"
  by (simp add: is_allowed_def Let_def split: list.split)

lemma exec_fst_IsAllowed_cong:
  "fst (is_allowed clock s1 k a) = fst (is_allowed clock s2 k a) \<Longrightarrow>
   fst (exec clock s1 (IsAllowed k a)) = fst (exec clock s2 (IsAllowed k a))"
  by (cases "is_allowed clock s1 k a"; cases "is_allowed clock s2 k a")
     (auto split: sum.split)




section \<open>Keys are independent\<close>

lemma get_status_fst_cong:
  "max_requests s1 = max_requests s2 \<Longrightarrow> window_seconds s1 = window_seconds s2 \<Longrightarrow>
   getitem (requests s1) k = getitem (requests s2) k \<Longrightarrow>
   fst (get_status clock s1 k a) = fst (get_status clock s2 k a)"
  by (simp add: get_status_def Let_def split: list.split)

lemma exec_fst_GetStatus:
  "fst (exec clock s (GetStatus k a)) = Status (fst (get_status clock s k a))"
  by (simp split: prod.split)

lemma exec_frame:
  "key_of c = Some k1 \<Longrightarrow> k1 \<noteq> k2 \<Longrightarrow> requests (snd (exec clock s c)) k2 = requests s k2"
  by (cases c) (simp_all del: exec.simps add: exec_snd is_allowed_state get_status_state)

lemma exec_key_cong:
  assumes "max_requests s1 = max_requests s2" and "window_seconds s1 = window_seconds s2"
    and "requests s1 k = requests s2 k" and "key_of c = Some k"
  shows "fst (exec clock s1 c) = fst (exec clock s2 c)
     \<and> requests (snd (exec clock s1 c)) k = requests (snd (exec clock s2 c)) k"
proof -
  have g: "getitem (requests s1) k = getitem (requests s2) k"
    using assms(3) by (simp add: getitem_def)
  show ?thesis
  proof (cases c)
    case (IsAllowed k' a)
    with assms(4) have k: "k' = k" by simp
    have "fst (is_allowed clock s1 k a) = fst (is_allowed clock s2 k a)"
      using assms(1,2) g by (intro is_allowed_fst_cong) simp_all
    then have "fst (exec clock s1 (IsAllowed k a)) = fst (exec clock s2 (IsAllowed k a))"
      by (rule exec_fst_IsAllowed_cong)
    then show ?thesis
      using assms(1,2) g by (simp del: exec.simps add: IsAllowed k exec_snd is_allowed_state)
  next
    case (GetStatus k' a)
    with assms(4) have k: "k' = k" by simp
    have "fst (get_status clock s1 k a) = fst (get_status clock s2 k a)"
      using assms(1,2) g by (rule get_status_fst_cong)
    then show ?thesis
      using assms(2) g
      by (simp del: exec.simps add: GetStatus k exec_snd exec_fst_GetStatus get_status_state)
  next
    case (ResetUser k')
    with assms(3,4) show ?thesis by (simp add: reset_user_eq)
  next
    case ResetAll
    with assms(4) show ?thesis by simp
  qed
qed

lemma outcomes_on_sim:
  "max_requests s1 = max_requests s2 \<Longrightarrow> window_seconds s1 = window_seconds s2 \<Longrightarrow>
   requests s1 k = requests s2 k \<Longrightarrow> \<forall>p\<in>set cs. snd p \<noteq> ResetAll \<Longrightarrow>
   outcomes_on k s1 cs = outcomes_on k s2 (filter (\<lambda>p. key_of (snd p) = Some k) cs)
   \<and> requests (final s1 cs) k
       = requests (final s2 (filter (\<lambda>p. key_of (snd p) = Some k) cs)) k"
proof (induction cs arbitrary: s1 s2)
  case Nil
  then show ?case by simp
next
  case (Cons p cs)
  obtain clock c where p: "p = (clock, c)" by (cases p)
  have rest: "\<forall>q\<in>set cs. snd q \<noteq> ResetAll"
    using Cons.prems(4) by simp
  have cfg1: "max_requests (snd (exec clock s1 c)) = max_requests s1"
    "window_seconds (snd (exec clock s1 c)) = window_seconds s1"
    using exec_config [of clock s1 c] by simp_all
  have cfg2: "max_requests (snd (exec clock s2 c)) = max_requests s2"
    "window_seconds (snd (exec clock s2 c)) = window_seconds s2"
    using exec_config [of clock s2 c] by simp_all
  show ?case
  proof (cases "key_of c = Some k")
    case True
    from exec_key_cong [OF Cons.prems(1,2,3) True, of clock]
    have res: "fst (exec clock s1 c) = fst (exec clock s2 c)"
      and st: "requests (snd (exec clock s1 c)) k = requests (snd (exec clock s2 c)) k"
      by simp_all
    have "outcomes_on k (snd (exec clock s1 c)) cs
        = outcomes_on k (snd (exec clock s2 c)) (filter (\<lambda>p. key_of (snd p) = Some k) cs)
      \<and> requests (final (snd (exec clock s1 c)) cs) k
        = requests (final (snd (exec clock s2 c)) (filter (\<lambda>p. key_of (snd p) = Some k) cs)) k"
      using Cons.prems(1,2) cfg1 cfg2 st rest by (intro Cons.IH) simp_all
    with True res show ?thesis
      by (simp del: exec.simps add: p)
  next
    case False
    from Cons.prems(4) p have "c \<noteq> ResetAll" by simp
    with False obtain k1 where k1: "key_of c = Some k1" "k1 \<noteq> k"
      by (cases c) auto
    have st: "requests (snd (exec clock s1 c)) k = requests s2 k"
      using exec_frame [OF k1, of clock s1] Cons.prems(3) by simp
    have "outcomes_on k (snd (exec clock s1 c)) cs
        = outcomes_on k s2 (filter (\<lambda>p. key_of (snd p) = Some k) cs)
      \<and> requests (final (snd (exec clock s1 c)) cs) k
        = requests (final s2 (filter (\<lambda>p. key_of (snd p) = Some k) cs)) k"
      using Cons.prems(1,2) cfg1 st rest by (intro Cons.IH) simp_all
    with False show ?thesis
      by (simp del: exec.simps add: p)
  qed
qed

text \<open>
  Claim C7. Let \<open>k1\<close> and \<open>k2\<close> be distinct keys. \<^verbatim>\<open>is_allowed\<close>, \<^verbatim>\<open>get_status\<close> and
  \<^verbatim>\<open>reset_user\<close> on \<open>k1\<close> leave the record stored for \<open>k2\<close> as it is. And in any sequence of
  \<^verbatim>\<open>is_allowed\<close>, \<^verbatim>\<open>get_status\<close> and \<^verbatim>\<open>reset_user\<close> calls on any keys, the calls on \<open>k2\<close>
  return what they return when every call on another key is left out, and leave the same
  record for \<open>k2\<close>: no call on \<open>k1\<close> changes the result of a later call on \<open>k2\<close>.
\<close>

theorem keys_independent:
  assumes "k1 \<noteq> k2" and "\<forall>p\<in>set cs. snd p \<noteq> ResetAll"
  shows "requests (snd (is_allowed clock s k1 a)) k2 = requests s k2
     \<and> requests (snd (get_status clock s k1 a)) k2 = requests s k2
     \<and> (\<exists>s'. reset_user s k1 = Inr s' \<and> requests s' k2 = requests s k2)
     \<and> outcomes_on k2 s cs = outcomes_on k2 s (filter (\<lambda>p. key_of (snd p) = Some k2) cs)
     \<and> requests (final s cs) k2
         = requests (final s (filter (\<lambda>p. key_of (snd p) = Some k2) cs)) k2"
proof -
  have "outcomes_on k2 s cs = outcomes_on k2 s (filter (\<lambda>p. key_of (snd p) = Some k2) cs)
     \<and> requests (final s cs) k2
         = requests (final s (filter (\<lambda>p. key_of (snd p) = Some k2) cs)) k2"
    using refl refl refl assms(2) by (rule outcomes_on_sim)
  with assms(1) show ?thesis
    by (simp add: is_allowed_state get_status_state reset_user_eq)
qed

theorem keys_independent_witness:
  "''alice'' \<noteq> ''bob''
   \<and> outcomes_on ''bob'' \<lparr>max_requests = 1, window_seconds = 60, requests = Map.empty\<rparr>
        [(0, IsAllowed ''alice'' None), (1, IsAllowed ''alice'' None), (1, IsAllowed ''bob'' None),
         (2, ResetUser ''alice''), (3, GetStatus ''alice'' None), (4, IsAllowed ''bob'' None)]
     = outcomes_on ''bob'' \<lparr>max_requests = 1, window_seconds = 60, requests = Map.empty\<rparr>
        [(1, IsAllowed ''bob'' None), (4, IsAllowed ''bob'' None)]
   \<and> requests (final \<lparr>max_requests = 1, window_seconds = 60, requests = Map.empty\<rparr>
        [(0, IsAllowed ''alice'' None), (1, IsAllowed ''alice'' None), (1, IsAllowed ''bob'' None),
         (2, ResetUser ''alice''), (3, GetStatus ''alice'' None), (4, IsAllowed ''bob'' None)]) ''bob''
     = Some [1]
   \<and> map (\<lambda>r. case r of Checked (b, i) \<Rightarrow> b | _ \<Rightarrow> False)
        (outcomes_on ''bob'' \<lparr>max_requests = 1, window_seconds = 60, requests = Map.empty\<rparr>
          [(0, IsAllowed ''alice'' None), (1, IsAllowed ''alice'' None), (1, IsAllowed ''bob'' None),
           (2, ResetUser ''alice''), (3, GetStatus ''alice'' None), (4, IsAllowed ''bob'' None)])
     = [True, False]"
proof -
  have h1: "''alice'' \<noteq> ''bob''" by simp
  have h2: "\<forall>p\<in>set [(0::rat, IsAllowed ''alice'' None), (1, IsAllowed ''alice'' None),
         (1, IsAllowed ''bob'' None), (2, ResetUser ''alice''), (3, GetStatus ''alice'' None),
         (4, IsAllowed ''bob'' None)]. snd p \<noteq> ResetAll"
    by simp
  have v: "map (\<lambda>r. case r of Checked (b, i) \<Rightarrow> b | _ \<Rightarrow> False)
        (outcomes_on ''bob'' \<lparr>max_requests = 1, window_seconds = 60, requests = Map.empty\<rparr>
          [(0, IsAllowed ''alice'' None), (1, IsAllowed ''alice'' None), (1, IsAllowed ''bob'' None),
           (2, ResetUser ''alice''), (3, GetStatus ''alice'' None), (4, IsAllowed ''bob'' None)])
     = [True, False]"
    by code_simp
  have f: "requests (final \<lparr>max_requests = 1, window_seconds = 60, requests = Map.empty\<rparr>
        [(1, IsAllowed ''bob'' None), (4, IsAllowed ''bob'' None)]) ''bob'' = Some [1]"
    by code_simp
  from keys_independent [OF h1 h2,
      where s = "\<lparr>max_requests = 1, window_seconds = 60, requests = Map.empty\<rparr>"]
  have "outcomes_on ''bob'' \<lparr>max_requests = 1, window_seconds = 60, requests = Map.empty\<rparr>
        [(0, IsAllowed ''alice'' None), (1, IsAllowed ''alice'' None), (1, IsAllowed ''bob'' None),
         (2, ResetUser ''alice''), (3, GetStatus ''alice'' None), (4, IsAllowed ''bob'' None)]
     = outcomes_on ''bob'' \<lparr>max_requests = 1, window_seconds = 60, requests = Map.empty\<rparr>
        [(1, IsAllowed ''bob'' None), (4, IsAllowed ''bob'' None)]
   \<and> requests (final \<lparr>max_requests = 1, window_seconds = 60, requests = Map.empty\<rparr>
        [(0, IsAllowed ''alice'' None), (1, IsAllowed ''alice'' None), (1, IsAllowed ''bob'' None),
         (2, ResetUser ''alice''), (3, GetStatus ''alice'' None), (4, IsAllowed ''bob'' None)]) ''bob''
     = requests (final \<lparr>max_requests = 1, window_seconds = 60, requests = Map.empty\<rparr>
        [(1, IsAllowed ''bob'' None), (4, IsAllowed ''bob'' None)]) ''bob''"
    by simp
  with h1 v f show ?thesis by simp
qed

section \<open>Resets\<close>





section \<open>Stored entries are bounded\<close>

lemma getitem_upd:
  "getitem (m(k \<mapsto> d)) k' = (if k' = k then d else getitem m k')"
  "getitem (m(k := None)) k' = (if k' = k then [] else getitem m k')"
  by (simp_all add: getitem_def)

lemma exec_bounded:
  assumes "0 \<le> max_requests s"
    and "\<forall>k. int (length (getitem (requests s) k)) \<le> max_requests s"
  shows "int (length (getitem (requests (snd (exec clock s c))) k)) \<le> max_requests s"
proof (cases c)
  case (IsAllowed k' a)
  have "int (length (popleft_expired (now_of clock a - of_int (window_seconds s))
      (getitem (requests s) k'))) \<le> max_requests s"
    using assms(2) [rule_format, of k']
      popleft_expired_length [of "now_of clock a - of_int (window_seconds s)" "getitem (requests s) k'"]
    by linarith
  with assms(2) show ?thesis
    by (simp del: exec.simps add: IsAllowed exec_snd is_allowed_state getitem_upd Let_def)
next
  case (GetStatus k' a)
  have "int (length (popleft_expired (now_of clock a - of_int (window_seconds s))
      (getitem (requests s) k'))) \<le> max_requests s"
    using assms(2) [rule_format, of k']
      popleft_expired_length [of "now_of clock a - of_int (window_seconds s)" "getitem (requests s) k'"]
    by linarith
  with assms(2) show ?thesis
    by (simp del: exec.simps add: GetStatus exec_snd get_status_state getitem_upd)
next
  case (ResetUser k')
  with assms show ?thesis
    by (simp del: exec.simps add: exec_snd getitem_upd)
next
  case ResetAll
  with assms(1) show ?thesis
    by (simp add: reset_all_def getitem_def)
qed

lemma final_bounded:
  "0 \<le> max_requests s \<Longrightarrow> \<forall>k. int (length (getitem (requests s) k)) \<le> max_requests s \<Longrightarrow>
   int (length (getitem (requests (final s cs)) k)) \<le> max_requests s"
proof (induction cs arbitrary: s k)
  case Nil
  then show ?case by simp
next
  case (Cons p cs)
  obtain clock c where p: "p = (clock, c)" by (cases p)
  define s' where "s' = snd (exec clock s c)"
  have cfg: "max_requests s' = max_requests s"
    using exec_config [of clock s c] by (simp add: s'_def)
  have "0 \<le> max_requests s'"
    using Cons.prems(1) cfg by simp
  moreover have "\<forall>k. int (length (getitem (requests s') k)) \<le> max_requests s'"
    unfolding cfg using exec_bounded [OF Cons.prems, of clock c] by (simp add: s'_def)
  ultimately have "int (length (getitem (requests (final s' cs)) k)) \<le> max_requests s'"
    by (rule Cons.IH)
  then show ?case
    by (simp add: p s'_def [symmetric] cfg)
qed

text \<open>
  Claim C9. In every state reached from \<^verbatim>\<open>RateLimiter(n, w)\<close> by any sequence of
  \<^verbatim>\<open>is_allowed\<close>, \<^verbatim>\<open>get_status\<close>, \<^verbatim>\<open>reset_user\<close> and \<^verbatim>\<open>reset_all\<close> calls, every key's stored
  sequence has at most \<open>n\<close> entries, and an \<^verbatim>\<open>is_allowed\<close> call that rejects reports
  \<open>current_requests = n\<close>.
\<close>

theorem stored_entries_bounded:
  assumes "init n w = Inr s0"
  shows "int (length (getitem (requests (final s0 cs)) k)) \<le> n
     \<and> (\<forall>i. fst (is_allowed clock (final s0 cs) k a) = Inr (False, i) \<longrightarrow>
           map_of i ''current_requests'' = Some (VInt n))"
proof -
  from init_Inr [OF assms]
  have n: "0 \<le> max_requests s0" "max_requests s0 = n"
    and empty: "\<forall>k. int (length (getitem (requests s0) k)) \<le> max_requests s0"
    by (auto simp: getitem_def)
  define s where "s = final s0 cs"
  define e where
    "e = popleft_expired (now_of clock a - of_int (window_seconds s)) (getitem (requests s) k)"
  have cfg: "max_requests s = n"
    using final_config [of s0 cs] n(2) by (simp add: s_def)
  have bound: "int (length (getitem (requests s) k)) \<le> n"
    using final_bounded [OF n(1) empty, of cs k] n(2) by (simp add: s_def)
  have "int (length e) \<le> n"
    using bound popleft_expired_length [of "now_of clock a - of_int (window_seconds s)"
        "getitem (requests s) k"]
    unfolding e_def by linarith
  then have "\<forall>i. fst (is_allowed clock s k a) = Inr (False, i) \<longrightarrow>
           map_of i ''current_requests'' = Some (VInt n)"
    using cfg by (auto simp: is_allowed_def Let_def e_def [symmetric] split: if_splits list.splits)
  with bound show ?thesis
    by (simp add: s_def)
qed

theorem stored_entries_bounded_witness:
  "init 2 60 = Inr \<lparr>max_requests = 2, window_seconds = 60, requests = Map.empty\<rparr>
   \<and> int (length (getitem (requests
        (final \<lparr>max_requests = 2, window_seconds = 60, requests = Map.empty\<rparr>
           [(0, IsAllowed ''u'' None), (1, IsAllowed ''u'' None), (2, IsAllowed ''u'' None),
            (3, GetStatus ''u'' None), (4, IsAllowed ''v'' None)])) ''u'')) \<le> 2
   \<and> fst (is_allowed 5
        (final \<lparr>max_requests = 2, window_seconds = 60, requests = Map.empty\<rparr>
           [(0, IsAllowed ''u'' None), (1, IsAllowed ''u'' None), (2, IsAllowed ''u'' None),
            (3, GetStatus ''u'' None), (4, IsAllowed ''v'' None)]) ''u'' None)
     = Inr (False,
         [(''allowed'', VBool False),
          (''user_id'', VStr ''u''),
          (''current_requests'', VInt 2),
          (''max_requests'', VInt 2),
          (''window_seconds'', VInt 60),
          (''time_until_reset'', VNum 55),
          (''message'', VStr ''Rate limit exceeded. Try again in 55.0 seconds.'')])"
proof -
  have i: "init 2 60 = Inr \<lparr>max_requests = 2, window_seconds = 60, requests = Map.empty\<rparr>"
    by (simp add: init_def)
  have v: "fst (is_allowed 5
        (final \<lparr>max_requests = 2, window_seconds = 60, requests = Map.empty\<rparr>
           [(0, IsAllowed ''u'' None), (1, IsAllowed ''u'' None), (2, IsAllowed ''u'' None),
            (3, GetStatus ''u'' None), (4, IsAllowed ''v'' None)]) ''u'' None)
     = Inr (False,
         [(''allowed'', VBool False),
          (''user_id'', VStr ''u''),
          (''current_requests'', VInt 2),
          (''max_requests'', VInt 2),
          (''window_seconds'', VInt 60),
          (''time_until_reset'', VNum 55),
          (''message'', VStr ''Rate limit exceeded. Try again in 55.0 seconds.'')])"
    by code_simp
  from i v stored_entries_bounded [OF i,
      of "[(0, IsAllowed ''u'' None), (1, IsAllowed ''u'' None), (2, IsAllowed ''u'' None),
            (3, GetStatus ''u'' None), (4, IsAllowed ''v'' None)]" "''u''"]
  show ?thesis by blast
qed

section \<open>Keys are not validated\<close>



end
